theory Spec2Isabelle
  imports Main "HOL-Library.Word" "HOL-Library.Sublist" "HOL-Library.AList"
begin

section \<open>Python values used by analyze_hkx.py\<close>

text \<open>
  A \<open>bytes\<close> object is a list of 8-bit words. A Python \<open>str\<close> is a list of Unicode
  code points, so that the replacement character U+FFFD produced by
  \<open>decode("ascii", errors="replace")\<close> has a value of its own. String literals of the
  source are written with \<open>str\<close>, byte literals with \<open>ascii\<close>.
\<close>

type_synonym byte = "8 word"
type_synonym bytes = "byte list"
type_synonym pystr = "nat list"

definition str :: "string \<Rightarrow> pystr" where
  "str s = map of_char s"

definition ascii :: "string \<Rightarrow> bytes" where
  "ascii s = map (\<lambda>c. of_nat (of_char c)) s"

text \<open>\<open>bs.decode("ascii", errors="replace")\<close>: a byte above 0x7F becomes U+FFFD.\<close>

definition decode_ascii_replace :: "bytes \<Rightarrow> pystr" where
  "decode_ascii_replace bs = map (\<lambda>b. if unat b < 128 then unat b else 0xFFFD) bs"

text \<open>
  \<open>sig.decode("ascii")\<close> (strict). It is applied only to the members of
  \<open>ER_CLASSNAME_SIGNATURES\<close>, all of them ASCII, so it never raises there.
\<close>

definition decode_ascii :: "bytes \<Rightarrow> pystr" where
  "decode_ascii bs = map unat bs"

text \<open>
  \<open>sub in s\<close> on \<open>bytes\<close> and on \<open>str\<close> is contiguous containment, which is
  \<^const>\<open>sublist\<close>. \<open>s.find(sub)\<close> is the lowest index of an occurrence, or \<open>-1\<close>.
\<close>

fun find_sub :: "'a list \<Rightarrow> 'a list \<Rightarrow> nat option" where
  "find_sub sub [] = (if sub = [] then Some 0 else None)"
| "find_sub sub (x # xs) =
     (if prefix sub (x # xs) then Some 0 else map_option Suc (find_sub sub xs))"

definition find1 :: "'a list \<Rightarrow> 'a list \<Rightarrow> int" where
  "find1 data sub = (case find_sub sub data of None \<Rightarrow> -1 | Some i \<Rightarrow> int i)"

text \<open>
  \<open>data.find(sub, start, end)\<close> with \<open>0 \<le> start\<close> and a non-empty \<open>sub\<close>: the
  occurrence has to lie inside \<open>data[start:end]\<close>.
\<close>

definition find3 :: "'a list \<Rightarrow> 'a list \<Rightarrow> nat \<Rightarrow> nat \<Rightarrow> int" where
  "find3 data sub start end =
     (case find_sub sub (drop start (take end data)) of
        None \<Rightarrow> -1
      | Some i \<Rightarrow> int (start + i))"

text \<open>
  \<open>struct.unpack_from("<I", data, offset)[0]\<close>: four bytes, little-endian, unsigned;
  \<open>struct.error\<close> (here \<open>None\<close>) when fewer than four bytes are left at the offset.
\<close>

definition unpack_from_I :: "bytes \<Rightarrow> nat \<Rightarrow> nat option" where
  "unpack_from_I data offset =
     (if offset + 4 \<le> length data
      then Some (unat (data ! offset) + 256 * unat (data ! (offset + 1))
                 + 65536 * unat (data ! (offset + 2)) + 16777216 * unat (data ! (offset + 3)))
      else None)"

text \<open>The format specification \<open>08X\<close>: upper-case hexadecimal, zero-padded to eight digits.\<close>

definition hex_digit :: "nat \<Rightarrow> nat" where
  "hex_digit d = (if d < 10 then 48 + d else 55 + d)"

fun hex_upper :: "nat \<Rightarrow> pystr" where
  "hex_upper n = (if n < 16 then [hex_digit n] else hex_upper (n div 16) @ [hex_digit (n mod 16)])"

definition format_08X :: "nat \<Rightarrow> pystr" where
  "format_08X n = (let h = hex_upper n in replicate (8 - length h) 48 @ h)"

section \<open>Constants\<close>

definition HKX_MAGIC_LE :: bytes where
  "HKX_MAGIC_LE = [0x57, 0xE0, 0xE0, 0x57, 0x10, 0xC0, 0xC0, 0x10]"

definition HAVOK_VERSIONS :: "nat \<rightharpoonup> pystr" where
  "HAVOK_VERSIONS = map_of
     [(0x0B000000, str ''hk2014 (Skyrim SE)''),
      (0x0D000000, str ''hk2016''),
      (0x0E000000, str ''hk2018 (Elden Ring / DS3)''),
      (0x10000000, str ''hk2020'')]"

definition ER_CLASSNAME_SIGNATURES :: "bytes list" where
  "ER_CLASSNAME_SIGNATURES =
     [ascii ''hkaAnimationContainer'',
      ascii ''hkaSplineCompressedAnimation'',
      ascii ''hkaInterleavedUncompressedAnimation'',
      ascii ''hkaAnimationBinding'',
      ascii ''hkaSkeleton'',
      ascii ''hkaSkeletonMapper'',
      ascii ''hkRootLevelContainer'']"

section \<open>The record built by class HKXInfo\<close>

record path =
  path_str :: string
  name :: string

record hkx_info =
  filepath :: path
  filename :: string
  filesize :: nat
  valid :: bool
  error :: "pystr option"
  endianness :: pystr
  havok_version_raw :: nat
  havok_version_str :: pystr
  user_tag :: nat
  num_sections :: nat
  content_version_string :: pystr
  detected_classes :: "pystr list"
  has_animation :: bool
  has_skeleton :: bool
  has_binding :: bool
  compression_type :: pystr

text \<open>The field values \<open>__init__\<close> assigns before it calls \<open>_parse\<close>.\<close>

definition init_fields :: "path \<Rightarrow> nat \<Rightarrow> hkx_info" where
  "init_fields fp fsize =
     \<lparr> filepath = fp, filename = name fp, filesize = fsize,
       valid = False, error = None,
       endianness = str ''unknown'', havok_version_raw = 0,
       havok_version_str = str ''unknown'', user_tag = 0, num_sections = 0,
       content_version_string = [],
       detected_classes = [], has_animation = False, has_skeleton = False,
       has_binding = False, compression_type = str ''unknown'' \<rparr>"

section \<open>Signature scanning\<close>

text \<open>The body of the loop of \<open>_scan_classes\<close>, for one signature.\<close>

definition scan_class :: "bytes \<Rightarrow> bytes \<Rightarrow> hkx_info \<Rightarrow> hkx_info" where
  "scan_class data sig s =
     (if sublist sig data then
        (let class_name = decode_ascii sig;
             s1 = s\<lparr>detected_classes := detected_classes s @ [class_name]\<rparr>
         in if sublist (str ''Animation'') class_name \<and> \<not> sublist (str ''Container'') class_name
            then (let s2 = s1\<lparr>has_animation := True\<rparr>
                  in if sublist (str ''Spline'') class_name
                     then s2\<lparr>compression_type := str ''spline''\<rparr>
                     else if sublist (str ''Interleaved'') class_name
                     then s2\<lparr>compression_type := str ''interleaved''\<rparr>
                     else s2)
            else if sublist (str ''Skeleton'') class_name \<and> \<not> sublist (str ''Mapper'') class_name
            then s1\<lparr>has_skeleton := True\<rparr>
            else if sublist (str ''Binding'') class_name
            then s1\<lparr>has_binding := True\<rparr>
            else s1)
      else s)"

fun scan_sigs :: "bytes \<Rightarrow> bytes list \<Rightarrow> hkx_info \<Rightarrow> hkx_info" where
  "scan_sigs data [] s = s"
| "scan_sigs data (sig # sigs) s = scan_sigs data sigs (scan_class data sig s)"

definition scan_classes :: "bytes \<Rightarrow> hkx_info \<Rightarrow> hkx_info" where
  "scan_classes data s = scan_sigs data ER_CLASSNAME_SIGNATURES s"

text \<open>
  \<open>_scan_version_string\<close>: the first pattern that occurs and is followed, within 64 bytes
  of its start, by a NUL at a later index gives the content version string; the loop
  breaks only then.
\<close>

fun scan_version_patterns :: "bytes \<Rightarrow> bytes list \<Rightarrow> hkx_info \<Rightarrow> hkx_info" where
  "scan_version_patterns data [] s = s"
| "scan_version_patterns data (pattern # rest) s =
     (let idx = find1 data pattern in
      if idx \<ge> 0 then
        (let end = find3 data [0] (nat idx) (nat idx + 64) in
         if end > idx
         then s\<lparr>content_version_string :=
                  decode_ascii_replace (drop (nat idx) (take (nat end) data))\<rparr>
         else scan_version_patterns data rest s)
      else scan_version_patterns data rest s)"

definition scan_version_string :: "bytes \<Rightarrow> hkx_info \<Rightarrow> hkx_info" where
  "scan_version_string data s =
     scan_version_patterns data [ascii ''hk_'', ascii ''Havok-'', ascii ''hkVersionUtil''] s"

section \<open>The standard header\<close>

text \<open>
  The \<open>try\<close> block of \<open>_parse\<close>. \<open>Inl s\<close> is a raised \<open>struct.error\<close>, with the fields
  as they were when it was raised; \<open>Inr s\<close> is normal completion.
\<close>

definition and_then :: "hkx_info + hkx_info \<Rightarrow> (hkx_info \<Rightarrow> hkx_info + hkx_info) \<Rightarrow> hkx_info + hkx_info" where
  "and_then r f = (case r of Inl s \<Rightarrow> Inl s | Inr s \<Rightarrow> f s)"

fun probe_versions :: "bytes \<Rightarrow> nat list \<Rightarrow> hkx_info \<Rightarrow> hkx_info + hkx_info" where
  "probe_versions data [] s = Inr s"
| "probe_versions data (offset # rest) s =
     (if offset + 4 \<le> length data then
        (case unpack_from_I data offset of
           None \<Rightarrow> Inl s
         | Some v \<Rightarrow>
             (case HAVOK_VERSIONS v of
                Some label \<Rightarrow> Inr (s\<lparr>havok_version_raw := v, havok_version_str := label\<rparr>)
              | None \<Rightarrow> probe_versions data rest s))
      else probe_versions data rest s)"

fun probe_sections :: "bytes \<Rightarrow> nat list \<Rightarrow> hkx_info \<Rightarrow> hkx_info + hkx_info" where
  "probe_sections data [] s = Inr s"
| "probe_sections data (offset # rest) s =
     (if offset + 4 \<le> length data then
        (case unpack_from_I data offset of
           None \<Rightarrow> Inl s
         | Some v \<Rightarrow>
             if 0 < v \<and> v < 100 then Inr (s\<lparr>num_sections := v\<rparr>)
             else probe_sections data rest s)
      else probe_sections data rest s)"

definition resolve_version :: "bytes \<Rightarrow> hkx_info \<Rightarrow> hkx_info + hkx_info" where
  "resolve_version data s =
     (case unpack_from_I data 0x0C of
        None \<Rightarrow> Inl s
      | Some version_candidate \<Rightarrow>
          (case HAVOK_VERSIONS version_candidate of
             Some label \<Rightarrow>
               Inr (s\<lparr>havok_version_raw := version_candidate, havok_version_str := label\<rparr>)
           | None \<Rightarrow>
               and_then (probe_versions data [0x10, 0x14, 0x28, 0x2C] s)
                 (\<lambda>s'. Inr (if havok_version_raw s' = 0
                            then s'\<lparr>havok_version_str :=
                                      str ''unknown (0x'' @ format_08X version_candidate @ str '')''\<rparr>
                            else s'))))"

definition parse_header_fields :: "bytes \<Rightarrow> hkx_info \<Rightarrow> hkx_info + hkx_info" where
  "parse_header_fields data s =
     (case unpack_from_I data 0x08 of
        None \<Rightarrow> Inl s
      | Some tag \<Rightarrow>
          (let s1 = s\<lparr>user_tag := tag\<rparr>;
               endian_byte = (if length data > 0x11 then data ! 0x11 else 0);
               s2 = s1\<lparr>endianness := (if endian_byte = 0 then str ''big'' else str ''little'')\<rparr>
           in and_then (resolve_version data s2) (probe_sections data [0x14, 0x18])))"

text \<open>\<open>except struct.error: pass\<close> keeps whatever had been assigned.\<close>

definition except_pass :: "hkx_info + hkx_info \<Rightarrow> hkx_info" where
  "except_pass r = (case r of Inl s \<Rightarrow> s | Inr s \<Rightarrow> s)"

section \<open>The alternative header\<close>

text \<open>\<open>range(0, stop, 4)\<close> for an integer \<open>stop\<close>.\<close>

definition range4 :: "int \<Rightarrow> nat list" where
  "range4 stop = map (\<lambda>k. 4 * k) [0 ..< (nat stop + 3) div 4]"

fun scan_magic :: "bytes \<Rightarrow> nat list \<Rightarrow> hkx_info \<Rightarrow> hkx_info" where
  "scan_magic data [] s = s"
| "scan_magic data (offset # rest) s =
     (if take 8 (drop offset data) = HKX_MAGIC_LE then s\<lparr>valid := True\<rparr>
      else scan_magic data rest s)"

definition parse_alternative_header :: "bytes \<Rightarrow> hkx_info \<Rightarrow> hkx_info" where
  "parse_alternative_header data s =
     (if take 3 data = ascii ''hk_'' \<or> take 3 data = ascii ''HK_'' then
        (let s1 = s\<lparr>valid := True\<rparr>;
             end = find3 data [0] 0 64;
             s2 = (if end > 0 then
                     (let s' = s1\<lparr>content_version_string := decode_ascii_replace (take (nat end) data)\<rparr>
                      in if sublist (str ''2018'') (content_version_string s')
                         then s'\<lparr>havok_version_str := str ''hk2018 (Elden Ring / DS3)''\<rparr>
                         else if sublist (str ''2014'') (content_version_string s')
                         then s'\<lparr>havok_version_str := str ''hk2014 (Skyrim SE)''\<rparr>
                         else if sublist (str ''2016'') (content_version_string s')
                         then s'\<lparr>havok_version_str := str ''hk2016''\<rparr>
                         else s')
                   else s1)
         in scan_classes data s2)
      else
        (let s1 = scan_magic data (range4 (min 256 (int (length data) - 8))) s;
             s2 = (if \<not> valid s1 then
                     (let s' = scan_classes data s1
                      in if detected_classes s' \<noteq> []
                         then s'\<lparr>valid := True,
                                 havok_version_str := str ''unknown (headerless, classes detected)''\<rparr>
                         else s')
                   else s1)
         in if \<not> valid s2
            then s2\<lparr>error := Some (str ''No valid HKX header or Havok class signatures found'')\<rparr>
            else s2))"

section \<open>_parse and the constructor\<close>

text \<open>
  What \<open>open(self.filepath, "rb")\<close> and \<open>f.read(n)\<close> meet: a file that cannot be opened or
  read (with the text of the exception), or one whose content is there; \<open>f.read(n)\<close>
  returns at most \<open>n\<close> bytes of it.
\<close>

datatype disk_file = Unreadable pystr | Readable bytes

definition read_file :: "disk_file \<Rightarrow> nat \<Rightarrow> pystr + bytes" where
  "read_file f n = (case f of Unreadable e \<Rightarrow> Inl e | Readable content \<Rightarrow> Inr (take n content))"

definition parse_data :: "bytes \<Rightarrow> hkx_info \<Rightarrow> hkx_info" where
  "parse_data data s =
     (if length data < 64 then s\<lparr>error := Some (str ''File too small to be a valid HKX'')\<rparr>
      else if take 8 data \<noteq> HKX_MAGIC_LE then parse_alternative_header data s
      else
        (let s1 = s\<lparr>valid := True\<rparr>;
             s2 = except_pass (parse_header_fields data s1);
             s3 = scan_version_string data s2
         in scan_classes data s3))"

definition parse :: "disk_file \<Rightarrow> hkx_info \<Rightarrow> hkx_info" where
  "parse f s =
     (case read_file f (min (filesize s) 65536) of
        Inl e \<Rightarrow> s\<lparr>error := Some (str ''Cannot read file: '' @ e)\<rparr>
      | Inr data \<Rightarrow> parse_data data s)"

definition HKXInfo :: "path \<Rightarrow> nat \<Rightarrow> disk_file \<Rightarrow> hkx_info" where
  "HKXInfo fp fsize f = parse f (init_fields fp fsize)"

section \<open>check_skyrim_compatibility\<close>

definition check_skyrim_compatibility :: "hkx_info \<Rightarrow> pystr list" where
  "check_skyrim_compatibility info =
     (if \<not> valid info then [str ''INVALID: File is not a valid HKX file'']
      else
        (let issues1 =
               (if sublist (str ''2018'') (havok_version_str info)
                   \<or> sublist (str ''Elden Ring'') (havok_version_str info)
                then [str ''VERSION: Elden Ring uses Havok 2018, Skyrim SE uses Havok 2014. Conversion required via hkxcmd or HavokBehaviorPostProcess.'']
                else []);
             issues2 =
               (if compression_type info = str ''spline''
                then issues1 @ [str ''COMPRESSION: Spline-compressed animation data. Soulstruct or custom decompressor needed before retargeting.'']
                else issues1);
             issues3 =
               (if endianness info = str ''big''
                then issues2 @ [str ''ENDIAN: Big-endian format detected. Skyrim SE uses little-endian. Byte-swap conversion required.'']
                else issues2)
         in if issues3 = []
            then [str ''OK: No obvious compatibility issues detected (further testing needed)'']
            else issues3))"

section \<open>The summary of print_results\<close>

text \<open>
  A \<open>dict\<close> keeps insertion order: \<open>d[k] = d.get(k, 0) + 1\<close> replaces the value of a key
  that is present and appends a key that is not, which is \<^const>\<open>AList.update\<close>.
\<close>

type_synonym counts = "(pystr \<times> nat) list"

definition dict_get :: "counts \<Rightarrow> pystr \<Rightarrow> nat \<Rightarrow> nat" where
  "dict_get d k dflt = (case map_of d k of None \<Rightarrow> dflt | Some v \<Rightarrow> v)"

definition increment :: "pystr \<Rightarrow> counts \<Rightarrow> counts" where
  "increment k d = AList.update k (dict_get d k 0 + 1) d"

fun count_compression :: "hkx_info list \<Rightarrow> counts \<Rightarrow> counts" where
  "count_compression [] d = d"
| "count_compression (r # rs) d = count_compression rs (increment (compression_type r) d)"

fun count_versions :: "hkx_info list \<Rightarrow> counts \<Rightarrow> counts" where
  "count_versions [] d = d"
| "count_versions (r # rs) d =
     count_versions rs (if valid r then increment (havok_version_str r) d else d)"

record summary =
  total :: nat
  valid_count :: nat
  with_anim :: nat
  with_skel :: nat
  with_binding :: nat
  compression_counts :: counts
  version_counts :: counts
  total_size :: nat

text \<open>
  The values \<open>print_results\<close> computes under the comment \<open>Summary\<close>; \<open>None\<close> is the early
  return on an empty result list, where no summary is computed.
\<close>

definition summarize :: "hkx_info list \<Rightarrow> summary option" where
  "summarize results =
     (if results = [] then None
      else Some
        \<lparr> total = length results,
          valid_count = sum_list (map (\<lambda>r. 1) (filter valid results)),
          with_anim = sum_list (map (\<lambda>r. 1) (filter has_animation results)),
          with_skel = sum_list (map (\<lambda>r. 1) (filter has_skeleton results)),
          with_binding = sum_list (map (\<lambda>r. 1) (filter has_binding results)),
          compression_counts = count_compression results [],
          version_counts = count_versions results [],
          total_size = sum_list (map filesize results) \<rparr>)"

section \<open>A path for the concrete instances\<close>

definition sample_path :: path where
  "sample_path = \<lparr>path_str = ''a.hkx'', name = ''a.hkx''\<rparr>"

text \<open>The two animation signatures side by side, 63 bytes.\<close>

definition both_signatures :: bytes where
  "both_signatures = ascii ''hkaInterleavedUncompressedAnimation'' @ ascii ''hkaSplineCompressedAnimation''"

text \<open>
  The label the standard header resolves to, from the value \<open>c\<close> read at offset 0x0C and
  the values \<open>vs\<close> read at the alternate offsets, in probing order.
\<close>

definition version_label :: "nat \<Rightarrow> nat list \<Rightarrow> pystr" where
  "version_label c vs =
     (case HAVOK_VERSIONS c of
        Some label \<Rightarrow> label
      | None \<Rightarrow>
          (case List.find (\<lambda>v. HAVOK_VERSIONS v \<noteq> None) vs of
             Some v \<Rightarrow> the (HAVOK_VERSIONS v)
           | None \<Rightarrow> str ''unknown (0x'' @ format_08X c @ str '')''))"

text \<open>A standard header whose value at offset 0x14 is the hk2018 key, and a tagfile.\<close>

definition probed_header :: bytes where
  "probed_header = HKX_MAGIC_LE @ replicate 12 0 @ [0, 0, 0, 0x0E] @ replicate 40 0"

definition tagfile_2018 :: bytes where
  "tagfile_2018 = ascii ''hk_2018.1.0-r1'' @ replicate 50 0"

section \<open>What each pass leaves alone\<close>

text \<open>
  The fields that reading the standard header never assigns: between \<open>s\<close> and \<open>s'\<close>
  only \<open>user_tag\<close>, \<open>endianness\<close>, the two version fields and \<open>num_sections\<close> may differ.
\<close>

definition header_only :: "hkx_info \<Rightarrow> hkx_info \<Rightarrow> bool" where
  "header_only s s' \<longleftrightarrow>
     valid s' = valid s \<and> error s' = error s
     \<and> content_version_string s' = content_version_string s
     \<and> detected_classes s' = detected_classes s
     \<and> has_animation s' = has_animation s \<and> has_skeleton s' = has_skeleton s
     \<and> has_binding s' = has_binding s \<and> compression_type s' = compression_type s"

lemma scan_class_frame:
  "valid (scan_class data sig s) = valid s"
  "error (scan_class data sig s) = error s"
  "endianness (scan_class data sig s) = endianness s"
  "havok_version_raw (scan_class data sig s) = havok_version_raw s"
  "havok_version_str (scan_class data sig s) = havok_version_str s"
  "num_sections (scan_class data sig s) = num_sections s"
  "content_version_string (scan_class data sig s) = content_version_string s"
  by (simp_all add: scan_class_def Let_def)

lemma scan_sigs_frame:
  "valid (scan_sigs data sigs s) = valid s"
  "error (scan_sigs data sigs s) = error s"
  "endianness (scan_sigs data sigs s) = endianness s"
  "havok_version_raw (scan_sigs data sigs s) = havok_version_raw s"
  "havok_version_str (scan_sigs data sigs s) = havok_version_str s"
  "num_sections (scan_sigs data sigs s) = num_sections s"
  "content_version_string (scan_sigs data sigs s) = content_version_string s"
  by (induction sigs arbitrary: s; simp add: scan_class_frame)+

lemma scan_classes_frame:
  "valid (scan_classes data s) = valid s"
  "error (scan_classes data s) = error s"
  "endianness (scan_classes data s) = endianness s"
  "havok_version_raw (scan_classes data s) = havok_version_raw s"
  "havok_version_str (scan_classes data s) = havok_version_str s"
  "num_sections (scan_classes data s) = num_sections s"
  "content_version_string (scan_classes data s) = content_version_string s"
  by (simp_all only: scan_classes_def scan_sigs_frame)

lemma scan_version_patterns_frame:
  "valid (scan_version_patterns data ps s) = valid s"
  "error (scan_version_patterns data ps s) = error s"
  "endianness (scan_version_patterns data ps s) = endianness s"
  "havok_version_raw (scan_version_patterns data ps s) = havok_version_raw s"
  "havok_version_str (scan_version_patterns data ps s) = havok_version_str s"
  "num_sections (scan_version_patterns data ps s) = num_sections s"
  "detected_classes (scan_version_patterns data ps s) = detected_classes s"
  "compression_type (scan_version_patterns data ps s) = compression_type s"
  by (induction ps arbitrary: s; simp add: Let_def)+

lemma scan_version_string_frame:
  "valid (scan_version_string data s) = valid s"
  "error (scan_version_string data s) = error s"
  "endianness (scan_version_string data s) = endianness s"
  "havok_version_raw (scan_version_string data s) = havok_version_raw s"
  "havok_version_str (scan_version_string data s) = havok_version_str s"
  "num_sections (scan_version_string data s) = num_sections s"
  "detected_classes (scan_version_string data s) = detected_classes s"
  "compression_type (scan_version_string data s) = compression_type s"
  by (simp_all only: scan_version_string_def scan_version_patterns_frame)


lemma header_only_trans: "header_only s t \<Longrightarrow> header_only t u \<Longrightarrow> header_only s u"
  by (simp add: header_only_def)

lemma header_only_and_then:
  assumes "header_only s (except_pass r)" and "\<And>t. header_only t (except_pass (f t))"
  shows "header_only s (except_pass (and_then r f))"
proof (cases r)
  case (Inl a)
  with assms(1) show ?thesis by (simp add: and_then_def except_pass_def)
next
  case (Inr b)
  with assms(1) have "header_only s b" by (simp add: except_pass_def)
  moreover have "header_only b (except_pass (f b))" by (rule assms(2))
  ultimately show ?thesis using Inr by (simp add: and_then_def header_only_trans)
qed

lemma probe_versions_header_only: "header_only s (except_pass (probe_versions data offs s))"
  by (induction offs arbitrary: s)
     (simp_all add: except_pass_def header_only_def split: option.splits)

lemma probe_sections_header_only: "header_only s (except_pass (probe_sections data offs s))"
  by (induction offs arbitrary: s)
     (simp_all add: except_pass_def header_only_def split: option.splits)

lemma resolve_version_header_only: "header_only s (except_pass (resolve_version data s))"
proof (cases "unpack_from_I data 0x0C")
  case None
  then show ?thesis by (simp add: resolve_version_def except_pass_def header_only_def)
next
  case (Some vc)
  show ?thesis
  proof (cases "HAVOK_VERSIONS vc")
    case (Some label)
    with \<open>unpack_from_I data 0x0C = Some vc\<close> show ?thesis
      by (simp add: resolve_version_def except_pass_def header_only_def)
  next
    case None
    have "header_only s (except_pass (and_then (probe_versions data [0x10, 0x14, 0x28, 0x2C] s)
            (\<lambda>s'. Inr (if havok_version_raw s' = 0
                         then s'\<lparr>havok_version_str :=
                                   str ''unknown (0x'' @ format_08X vc @ str '')''\<rparr>
                         else s'))))"
      by (rule header_only_and_then[OF probe_versions_header_only])
         (simp add: except_pass_def header_only_def)
    with None \<open>unpack_from_I data 0x0C = Some vc\<close> show ?thesis
      by (simp only: resolve_version_def option.case)
  qed
qed

lemma parse_header_fields_header_only:
  "header_only s (except_pass (parse_header_fields data s))"
proof (cases "unpack_from_I data 0x08")
  case None
  then show ?thesis by (simp add: parse_header_fields_def except_pass_def header_only_def)
next
  case (Some tag)
  define s2 where "s2 = s\<lparr>user_tag := tag,
     endianness := (if (if length data > 0x11 then data ! 0x11 else 0) = 0
                    then str ''big'' else str ''little'')\<rparr>"
  have a: "header_only s s2" by (simp add: s2_def header_only_def)
  have "header_only s2 (except_pass (and_then (resolve_version data s2) (probe_sections data [0x14, 0x18])))"
    by (rule header_only_and_then[OF resolve_version_header_only probe_sections_header_only])
  with a have "header_only s (except_pass (and_then (resolve_version data s2) (probe_sections data [0x14, 0x18])))"
    by (rule header_only_trans)
  with Some show ?thesis
    by (simp only: parse_header_fields_def option.case Let_def s2_def)
qed

lemma probe_sections_result:
  "\<exists>n. except_pass (probe_sections data offs s) = s\<lparr>num_sections := n\<rparr>"
proof (induction offs arbitrary: s)
  case Nil
  have "except_pass (probe_sections data [] s) = s\<lparr>num_sections := num_sections s\<rparr>"
    by (simp add: except_pass_def)
  then show ?case by blast
next
  case (Cons offset rest)
  have same: "s = s\<lparr>num_sections := num_sections s\<rparr>" by simp
  show ?case
  proof (cases "offset + 4 \<le> length data")
    case False
    with Cons show ?thesis by simp
  next
    case True
    show ?thesis
    proof (cases "unpack_from_I data offset")
      case None
      with True have "except_pass (probe_sections data (offset # rest) s) = s\<lparr>num_sections := num_sections s\<rparr>"
        by (simp add: except_pass_def)
      then show ?thesis by blast
    next
      case (Some v)
      show ?thesis
      proof (cases "0 < v \<and> v < 100")
        case True
        with Some \<open>offset + 4 \<le> length data\<close>
        have "except_pass (probe_sections data (offset # rest) s) = s\<lparr>num_sections := v\<rparr>"
          by (simp add: except_pass_def)
        then show ?thesis by blast
      next
        case False
        with Some \<open>offset + 4 \<le> length data\<close>
        have "probe_sections data (offset # rest) s = probe_sections data rest s" by auto
        with Cons show ?thesis by (simp only:)
      qed
    qed
  qed
qed

lemma probe_versions_result:
  "\<exists>v l. except_pass (probe_versions data offs s) = s\<lparr>havok_version_raw := v, havok_version_str := l\<rparr>"
proof (induction offs arbitrary: s)
  case Nil
  have "except_pass (probe_versions data [] s)
        = s\<lparr>havok_version_raw := havok_version_raw s, havok_version_str := havok_version_str s\<rparr>"
    by (simp add: except_pass_def)
  then show ?case by blast
next
  case (Cons offset rest)
  have same: "s = s\<lparr>havok_version_raw := havok_version_raw s, havok_version_str := havok_version_str s\<rparr>"
    by simp
  show ?case
  proof (cases "offset + 4 \<le> length data")
    case False
    with Cons show ?thesis by simp
  next
    case True
    show ?thesis
    proof (cases "unpack_from_I data offset")
      case None
      with True have "except_pass (probe_versions data (offset # rest) s) = s"
        by (simp add: except_pass_def)
      with same show ?thesis by metis
    next
      case (Some v)
      show ?thesis
      proof (cases "HAVOK_VERSIONS v")
        case (Some label)
        with \<open>unpack_from_I data offset = Some v\<close> True
        have "except_pass (probe_versions data (offset # rest) s)
              = s\<lparr>havok_version_raw := v, havok_version_str := label\<rparr>"
          by (simp add: except_pass_def)
        then show ?thesis by blast
      next
        case None
        with \<open>unpack_from_I data offset = Some v\<close> True Cons show ?thesis by simp
      qed
    qed
  qed
qed

lemma resolve_version_result:
  "\<exists>v l. except_pass (resolve_version data s) = s\<lparr>havok_version_raw := v, havok_version_str := l\<rparr>"
proof -
  have same: "s = s\<lparr>havok_version_raw := havok_version_raw s, havok_version_str := havok_version_str s\<rparr>"
    by simp
  show ?thesis
  proof (cases "unpack_from_I data 0x0C")
    case None
    then have "except_pass (resolve_version data s) = s"
      by (simp add: resolve_version_def except_pass_def)
    with same show ?thesis by metis
  next
    case (Some vc)
    show ?thesis
    proof (cases "HAVOK_VERSIONS vc")
      case (Some label)
      with \<open>unpack_from_I data 0x0C = Some vc\<close>
      have "except_pass (resolve_version data s) = s\<lparr>havok_version_raw := vc, havok_version_str := label\<rparr>"
        by (simp add: resolve_version_def except_pass_def)
      then show ?thesis by blast
    next
      case None
      obtain v l where p: "except_pass (probe_versions data [0x10, 0x14, 0x28, 0x2C] s)
          = s\<lparr>havok_version_raw := v, havok_version_str := l\<rparr>"
        using probe_versions_result by blast
      define r where "r = probe_versions data [0x10, 0x14, 0x28, 0x2C] s"
      have rv: "resolve_version data s = and_then r
                 (\<lambda>s'. Inr (if havok_version_raw s' = 0
                         then s'\<lparr>havok_version_str :=
                                   str ''unknown (0x'' @ format_08X vc @ str '')''\<rparr>
                         else s'))"
        using None \<open>unpack_from_I data 0x0C = Some vc\<close>
        by (simp only: resolve_version_def option.case r_def)
      from p have p': "except_pass r = s\<lparr>havok_version_raw := v, havok_version_str := l\<rparr>"
        by (simp only: r_def)
      show ?thesis
      proof (cases r)
        case (Inl a)
        with p' rv have "except_pass (resolve_version data s) = s\<lparr>havok_version_raw := v, havok_version_str := l\<rparr>"
          by (simp add: and_then_def except_pass_def)
        then show ?thesis by blast
      next
        case (Inr b)
        with p' have b: "b = s\<lparr>havok_version_raw := v, havok_version_str := l\<rparr>"
          by (simp add: except_pass_def)
        have "except_pass (resolve_version data s)
              = s\<lparr>havok_version_raw := v,
                   havok_version_str := (if v = 0 then str ''unknown (0x'' @ format_08X vc @ str '')'' else l)\<rparr>"
          unfolding rv Inr b by (simp add: and_then_def except_pass_def)
        then show ?thesis by blast
      qed
    qed
  qed
qed

lemma parse_header_fields_endianness:
  assumes "12 \<le> length data"
  shows "endianness (except_pass (parse_header_fields data s))
         = (if (if length data > 0x11 then data ! 0x11 else 0) = 0 then str ''big'' else str ''little'')"
proof -
  obtain tag where tag: "unpack_from_I data 0x08 = Some tag"
    using assms by (simp add: unpack_from_I_def)
  define s2 where "s2 = s\<lparr>user_tag := tag,
     endianness := (if (if length data > 0x11 then data ! 0x11 else 0) = 0
                    then str ''big'' else str ''little'')\<rparr>"
  obtain v l where rv: "except_pass (resolve_version data s2) = s2\<lparr>havok_version_raw := v, havok_version_str := l\<rparr>"
    using resolve_version_result by blast
  have phf: "parse_header_fields data s = and_then (resolve_version data s2) (probe_sections data [0x14, 0x18])"
    using tag by (simp only: parse_header_fields_def option.case Let_def s2_def)
  have "endianness (except_pass (and_then (resolve_version data s2) (probe_sections data [0x14, 0x18]))) = endianness s2"
  proof (cases "resolve_version data s2")
    case (Inl a)
    with rv show ?thesis by (simp add: and_then_def except_pass_def)
  next
    case (Inr b)
    with rv have b: "b = s2\<lparr>havok_version_raw := v, havok_version_str := l\<rparr>"
      by (simp add: except_pass_def)
    obtain n where "except_pass (probe_sections data [0x14, 0x18] b) = b\<lparr>num_sections := n\<rparr>"
      using probe_sections_result by blast
    with Inr b show ?thesis by (simp add: and_then_def)
  qed
  then show ?thesis unfolding phf by (simp add: s2_def)
qed

lemma parse_data_standard:
  assumes "64 \<le> length data" and "take 8 data = HKX_MAGIC_LE"
  shows "parse_data data s =
           scan_classes data (scan_version_string data
             (except_pass (parse_header_fields data (s\<lparr>valid := True\<rparr>))))"
  using assms by (simp add: parse_data_def Let_def)

lemma HKXInfo_readable:
  assumes "read_file f (min fsize 65536) = Inr data"
  shows "HKXInfo fp fsize f = parse_data data (init_fields fp fsize)"
  using assms by (simp add: HKXInfo_def parse_def init_fields_def)

lemma standard_valid:
  assumes "64 \<le> length data" and "take 8 data = HKX_MAGIC_LE"
  shows "valid (parse_data data s)"
proof -
  have "header_only (s\<lparr>valid := True\<rparr>) (except_pass (parse_header_fields data (s\<lparr>valid := True\<rparr>)))"
    by (rule parse_header_fields_header_only)
  then have "valid (except_pass (parse_header_fields data (s\<lparr>valid := True\<rparr>)))"
    by (simp add: header_only_def)
  then show ?thesis
    by (simp only: parse_data_standard[OF assms] scan_classes_frame scan_version_string_frame)
qed

section \<open>The standard header: validity and endianness\<close>

text \<open>
  Claim C1, as the code has it: a buffer of at least 64 bytes whose first 8 bytes are the
  magic constant gives a record with \<open>valid = True\<close>, whatever the other bytes are.
\<close>

theorem magic_header_valid:
  assumes "read_file f (min fsize 65536) = Inr data"
    and "64 \<le> length data" and "take 8 data = HKX_MAGIC_LE"
  shows "valid (HKXInfo fp fsize f)"
  by (simp only: HKXInfo_readable[OF assms(1)] standard_valid[OF assms(2,3)])

theorem magic_header_valid_witness:
  "valid (HKXInfo sample_path 64 (Readable (HKX_MAGIC_LE @ replicate 56 0)))"
  using magic_header_valid[of "Readable (HKX_MAGIC_LE @ replicate 56 0)" 64 "HKX_MAGIC_LE @ replicate 56 0" sample_path]
  by (simp add: read_file_def HKX_MAGIC_LE_def)

text \<open>
  Claim C1 as stated, for every buffer, fails: a file that holds the 8 bytes of the magic
  constant and nothing else is rejected as too small.
\<close>

theorem magic_short_counterexample:
  "take 8 HKX_MAGIC_LE = HKX_MAGIC_LE
   \<and> read_file (Readable HKX_MAGIC_LE) (min 8 65536) = Inr HKX_MAGIC_LE
   \<and> \<not> valid (HKXInfo sample_path 8 (Readable HKX_MAGIC_LE))"
  by (simp add: HKXInfo_def parse_def read_file_def parse_data_def init_fields_def HKX_MAGIC_LE_def)

text \<open>
  Claim C3: when fewer than 64 bytes were read, the record is the one \<open>__init__\<close> set up,
  with only \<open>error\<close> assigned: invalid, the too-small message, and every header and
  classification field at its default, whatever the bytes are.
\<close>

theorem too_small_defaults:
  assumes "read_file f (min fsize 65536) = Inr data" and "length data < 64"
  shows "HKXInfo fp fsize f
           = (init_fields fp fsize)\<lparr>error := Some (str ''File too small to be a valid HKX'')\<rparr>
         \<and> valid (HKXInfo fp fsize f) = False
         \<and> error (HKXInfo fp fsize f) = Some (str ''File too small to be a valid HKX'')
         \<and> endianness (HKXInfo fp fsize f) = str ''unknown''
         \<and> havok_version_raw (HKXInfo fp fsize f) = 0
         \<and> havok_version_str (HKXInfo fp fsize f) = str ''unknown''
         \<and> num_sections (HKXInfo fp fsize f) = 0
         \<and> detected_classes (HKXInfo fp fsize f) = []
         \<and> has_animation (HKXInfo fp fsize f) = False
         \<and> has_skeleton (HKXInfo fp fsize f) = False
         \<and> has_binding (HKXInfo fp fsize f) = False
         \<and> compression_type (HKXInfo fp fsize f) = str ''unknown''"
  using assms(2) by (simp add: HKXInfo_readable[OF assms(1)] parse_data_def init_fields_def)

theorem too_small_defaults_witness:
  "valid (HKXInfo sample_path 40 (Readable (replicate 40 0x41))) = False
   \<and> error (HKXInfo sample_path 40 (Readable (replicate 40 0x41)))
       = Some (str ''File too small to be a valid HKX'')"
  using too_small_defaults[of "Readable (replicate 40 0x41)" 40 "replicate 40 0x41" sample_path]
  by (simp add: read_file_def init_fields_def)

text \<open>
  Claim C4: on a buffer of at least 64 bytes that starts with the magic constant, the
  reported endianness is \<open>big\<close> when the byte at offset 0x11 is zero and \<open>little\<close>
  otherwise; an 80-byte such buffer with a zero byte there is valid and \<open>big\<close>.
\<close>

theorem endianness_rule:
  assumes "read_file f (min fsize 65536) = Inr data"
    and "64 \<le> length data" and "take 8 data = HKX_MAGIC_LE"
  shows "endianness (HKXInfo fp fsize f) = (if data ! 0x11 = 0 then str ''big'' else str ''little'')
         \<and> (length data = 80 \<and> data ! 0x11 = 0 \<longrightarrow>
              valid (HKXInfo fp fsize f) \<and> endianness (HKXInfo fp fsize f) = str ''big'')"
proof -
  have "endianness (parse_data data (init_fields fp fsize))
        = endianness (except_pass (parse_header_fields data ((init_fields fp fsize)\<lparr>valid := True\<rparr>)))"
    by (simp only: parse_data_standard[OF assms(2,3)] scan_classes_frame scan_version_string_frame)
  also have "\<dots> = (if data ! 0x11 = 0 then str ''big'' else str ''little'')"
    using assms(2) by (simp add: parse_header_fields_endianness)
  finally have e: "endianness (HKXInfo fp fsize f) = (if data ! 0x11 = 0 then str ''big'' else str ''little'')"
    by (simp only: HKXInfo_readable[OF assms(1)])
  have "valid (HKXInfo fp fsize f)"
    by (simp only: HKXInfo_readable[OF assms(1)] standard_valid[OF assms(2,3)])
  with e show ?thesis by simp
qed

theorem endianness_rule_witness:
  "valid (HKXInfo sample_path 80 (Readable (HKX_MAGIC_LE @ replicate 72 0)))
   \<and> endianness (HKXInfo sample_path 80 (Readable (HKX_MAGIC_LE @ replicate 72 0))) = str ''big''"
  using endianness_rule[of "Readable (HKX_MAGIC_LE @ replicate 72 0)" 80 "HKX_MAGIC_LE @ replicate 72 0" sample_path]
  by (simp add: read_file_def HKX_MAGIC_LE_def nth_append)

section \<open>The compatibility check\<close>

text \<open>
  Claim C8: \<open>check_skyrim_compatibility\<close> is a function of the record alone. On an invalid
  record it returns exactly the one INVALID message; on a valid record that triggers none
  of the version, compression and endianness rules it returns exactly the one OK entry; and
  its result is never empty.
\<close>

theorem compatibility_issue_list:
  "(\<not> valid info \<longrightarrow>
      check_skyrim_compatibility info = [str ''INVALID: File is not a valid HKX file''])
   \<and> (valid info
        \<and> \<not> sublist (str ''2018'') (havok_version_str info)
        \<and> \<not> sublist (str ''Elden Ring'') (havok_version_str info)
        \<and> compression_type info \<noteq> str ''spline''
        \<and> endianness info \<noteq> str ''big'' \<longrightarrow>
      check_skyrim_compatibility info
        = [str ''OK: No obvious compatibility issues detected (further testing needed)''])
   \<and> check_skyrim_compatibility info \<noteq> []"
  by (simp add: check_skyrim_compatibility_def Let_def)

theorem compatibility_issue_list_witness:
  "check_skyrim_compatibility (init_fields sample_path 0)
     = [str ''INVALID: File is not a valid HKX file'']
   \<and> check_skyrim_compatibility ((init_fields sample_path 0)\<lparr>valid := True\<rparr>)
     = [str ''OK: No obvious compatibility issues detected (further testing needed)'']"
proof -
  have a: "\<not> valid (init_fields sample_path 0)"
    by (simp add: init_fields_def)
  have b: "valid ((init_fields sample_path 0)\<lparr>valid := True\<rparr>)
        \<and> \<not> sublist (str ''2018'') (havok_version_str ((init_fields sample_path 0)\<lparr>valid := True\<rparr>))
        \<and> \<not> sublist (str ''Elden Ring'') (havok_version_str ((init_fields sample_path 0)\<lparr>valid := True\<rparr>))
        \<and> compression_type ((init_fields sample_path 0)\<lparr>valid := True\<rparr>) \<noteq> str ''spline''
        \<and> endianness ((init_fields sample_path 0)\<lparr>valid := True\<rparr>) \<noteq> str ''big''"
    by (simp add: init_fields_def str_def sublist_code prefix_code)
  from a b compatibility_issue_list[of "init_fields sample_path 0"]
    compatibility_issue_list[of "(init_fields sample_path 0)\<lparr>valid := True\<rparr>"]
  show ?thesis by blast
qed

section \<open>The batch summary\<close>

lemma sum_increment: "sum_list (map snd (increment k d)) = Suc (sum_list (map snd d))"
proof -
  have "sum_list (map snd (AList.update k (Suc (case map_of d k of None \<Rightarrow> 0 | Some v \<Rightarrow> v)) d))
        = Suc (sum_list (map snd d))"
    by (induction d) auto
  then show ?thesis by (simp add: increment_def dict_get_def)
qed

lemma sum_count_compression:
  "sum_list (map snd (count_compression rs d)) = sum_list (map snd d) + length rs"
  by (induction rs arbitrary: d) (simp_all add: sum_increment)

lemma sum_count_versions:
  "sum_list (map snd (count_versions rs d)) = sum_list (map snd d) + length (filter valid rs)"
  by (induction rs arbitrary: d) (simp_all add: sum_increment)

lemma length_filter_valid:
  "length (filter valid rs) = length rs - length (filter (\<lambda>r. \<not> valid r) rs)"
  using sum_length_filter_compl[of valid rs] by simp

lemma sum_ones: "sum_list (map (\<lambda>r. Suc 0) xs) = length xs"
  by (induction xs) simp_all


lemma keys_increment: "fst ` set (increment k d) = insert k (fst ` set d)"
  by (simp add: increment_def dom_update)

lemma keys_count_compression:
  "fst ` set (count_compression rs d) = fst ` set d \<union> compression_type ` set rs"
  by (induction rs arbitrary: d) (auto simp: keys_increment)

lemma keys_count_versions:
  "fst ` set (count_versions rs d) = fst ` set d \<union> havok_version_str ` set (filter valid rs)"
  by (induction rs arbitrary: d) (auto simp: keys_increment)

text \<open>
  Claim C9: for a non-empty batch of N records of which K are invalid, the summary is
  computed, its valid count is N - K, the version table holds exactly the labels of the
  valid records and its values sum to N - K, and the compression table holds the
  classification of every record and its values sum to N.
\<close>

theorem summary_counts:
  assumes "results \<noteq> []"
  shows "\<exists>sm. summarize results = Some sm
     \<and> total sm = length results
     \<and> valid_count sm = length results - length (filter (\<lambda>r. \<not> valid r) results)
     \<and> fst ` set (version_counts sm) = havok_version_str ` set (filter valid results)
     \<and> sum_list (map snd (version_counts sm))
         = length results - length (filter (\<lambda>r. \<not> valid r) results)
     \<and> fst ` set (compression_counts sm) = compression_type ` set results
     \<and> sum_list (map snd (compression_counts sm)) = length results"
proof -
  let ?sm = "\<lparr> total = length results,
          valid_count = sum_list (map (\<lambda>r. 1) (filter valid results)),
          with_anim = sum_list (map (\<lambda>r. 1) (filter has_animation results)),
          with_skel = sum_list (map (\<lambda>r. 1) (filter has_skeleton results)),
          with_binding = sum_list (map (\<lambda>r. 1) (filter has_binding results)),
          compression_counts = count_compression results [],
          version_counts = count_versions results [],
          total_size = sum_list (map filesize results) \<rparr>"
  have "summarize results = Some ?sm"
    using assms by (simp add: summarize_def)
  moreover have "total ?sm = length results" by simp
  moreover have "valid_count ?sm = length results - length (filter (\<lambda>r. \<not> valid r) results)"
    by (simp add: length_filter_valid sum_ones)
  moreover have "fst ` set (version_counts ?sm) = havok_version_str ` set (filter valid results)"
    by (simp only: summary.simps keys_count_versions) simp
  moreover have "sum_list (map snd (version_counts ?sm))
         = length results - length (filter (\<lambda>r. \<not> valid r) results)"
    by (simp add: sum_count_versions length_filter_valid)
  moreover have "fst ` set (compression_counts ?sm) = compression_type ` set results"
    by (simp only: summary.simps keys_count_compression) simp
  moreover have "sum_list (map snd (compression_counts ?sm)) = length results"
    by (simp add: sum_count_compression)
  ultimately show ?thesis by blast
qed

theorem summary_counts_witness:
  "\<exists>sm. summarize [init_fields sample_path 0, (init_fields sample_path 70)\<lparr>valid := True\<rparr>,
                    (init_fields sample_path 90)\<lparr>valid := True, compression_type := str ''spline''\<rparr>]
           = Some sm
     \<and> total sm = 3 \<and> valid_count sm = 2
     \<and> sum_list (map snd (version_counts sm)) = 2
     \<and> sum_list (map snd (compression_counts sm)) = 3"
proof -
  let ?rs = "[init_fields sample_path 0, (init_fields sample_path 70)\<lparr>valid := True\<rparr>,
              (init_fields sample_path 90)\<lparr>valid := True, compression_type := str ''spline''\<rparr>]"
  have "?rs \<noteq> []" by simp
  from summary_counts[OF this] obtain sm where
    "summarize ?rs = Some sm" and "total sm = length ?rs"
    and "valid_count sm = length ?rs - length (filter (\<lambda>r. \<not> valid r) ?rs)"
    and "sum_list (map snd (version_counts sm)) = length ?rs - length (filter (\<lambda>r. \<not> valid r) ?rs)"
    and "sum_list (map snd (compression_counts sm)) = length ?rs"
    by blast
  moreover have "length ?rs = 3" by simp
  moreover have "length (filter (\<lambda>r. \<not> valid r) ?rs) = 1" by (simp add: init_fields_def)
  ultimately show ?thesis by simp
qed

section \<open>Invalid records\<close>

lemma scan_class_detected:
  "detected_classes (scan_class data sig s)
   = (if sublist sig data then detected_classes s @ [decode_ascii sig] else detected_classes s)"
  by (simp add: scan_class_def Let_def)

lemma scan_class_nothing:
  assumes "detected_classes (scan_class data sig s) = []"
  shows "scan_class data sig s = s"
proof (cases "sublist sig data")
  case True
  with assms show ?thesis by (simp add: scan_class_detected)
next
  case False
  then show ?thesis by (simp add: scan_class_def)
qed

lemma scan_class_grows:
  "detected_classes s \<noteq> [] \<Longrightarrow> detected_classes (scan_class data sig s) \<noteq> []"
  by (simp add: scan_class_detected)

lemma scan_sigs_grows:
  "detected_classes s \<noteq> [] \<Longrightarrow> detected_classes (scan_sigs data sigs s) \<noteq> []"
proof (induction sigs arbitrary: s)
  case Nil
  then show ?case by simp
next
  case (Cons sig sigs)
  from Cons.prems have "detected_classes (scan_class data sig s) \<noteq> []"
    by (rule scan_class_grows)
  then have "detected_classes (scan_sigs data sigs (scan_class data sig s)) \<noteq> []"
    by (rule Cons.IH)
  then show ?case by simp
qed

lemma scan_sigs_nothing:
  "detected_classes (scan_sigs data sigs s) = [] \<Longrightarrow> scan_sigs data sigs s = s"
proof (induction sigs arbitrary: s)
  case Nil
  then show ?case by simp
next
  case (Cons sig sigs)
  from Cons.prems have e: "detected_classes (scan_sigs data sigs (scan_class data sig s)) = []"
    by simp
  have "detected_classes (scan_class data sig s) = []"
  proof (rule ccontr)
    assume "detected_classes (scan_class data sig s) \<noteq> []"
    then have "detected_classes (scan_sigs data sigs (scan_class data sig s)) \<noteq> []"
      by (rule scan_sigs_grows)
    with e show False by simp
  qed
  then have c: "scan_class data sig s = s" by (rule scan_class_nothing)
  from e have "scan_sigs data sigs (scan_class data sig s) = scan_class data sig s"
    by (rule Cons.IH)
  with c show ?case by simp
qed

lemma scan_classes_nothing:
  "detected_classes (scan_classes data s) = [] \<Longrightarrow> scan_classes data s = s"
  unfolding scan_classes_def by (rule scan_sigs_nothing)

lemma scan_magic_result:
  "scan_magic data offs s = s \<or> scan_magic data offs s = s\<lparr>valid := True\<rparr>"
proof (induction offs)
  case Nil
  show ?case by simp
next
  case (Cons offset rest)
  show ?case
  proof (cases "take 8 (drop offset data) = HKX_MAGIC_LE")
    case True
    then show ?thesis by simp
  next
    case False
    then have "scan_magic data (offset # rest) s = scan_magic data rest s" by simp
    with Cons show ?thesis by (simp only:)
  qed
qed

lemma alternative_invalid:
  assumes "\<not> valid (parse_alternative_header data s)" and "\<not> valid s"
  shows "parse_alternative_header data s
         = s\<lparr>error := Some (str ''No valid HKX header or Havok class signatures found'')\<rparr>"
proof (cases "take 3 data = ascii ''hk_'' \<or> take 3 data = ascii ''HK_''")
  case True
  then have "valid (parse_alternative_header data s)"
    by (simp add: parse_alternative_header_def Let_def scan_classes_frame)
  with assms(1) show ?thesis by simp
next
  case False
  have m: "scan_magic data (range4 (min 256 (int (length data) - 8))) s = s"
  proof (rule ccontr)
    assume "scan_magic data (range4 (min 256 (int (length data) - 8))) s \<noteq> s"
    then have "scan_magic data (range4 (min 256 (int (length data) - 8))) s = s\<lparr>valid := True\<rparr>"
      using scan_magic_result[of data "range4 (min 256 (int (length data) - 8))" s] by simp
    then have "valid (parse_alternative_header data s)"
      using False by (simp add: parse_alternative_header_def Let_def)
    with assms(1) show False by simp
  qed
  have p: "parse_alternative_header data s =
      (if detected_classes (scan_classes data s) \<noteq> []
       then (scan_classes data s)\<lparr>valid := True,
               havok_version_str := str ''unknown (headerless, classes detected)''\<rparr>
       else if \<not> valid (scan_classes data s)
       then (scan_classes data s)\<lparr>error := Some (str ''No valid HKX header or Havok class signatures found'')\<rparr>
       else scan_classes data s)"
    using False assms(2) by (simp add: parse_alternative_header_def Let_def m)
  have d: "detected_classes (scan_classes data s) = []"
  proof (rule ccontr)
    assume "detected_classes (scan_classes data s) \<noteq> []"
    then have "valid (parse_alternative_header data s)" by (simp add: p)
    with assms(1) show False by simp
  qed
  then have "scan_classes data s = s" by (rule scan_classes_nothing)
  with p d assms(2) show ?thesis by simp
qed

lemma invalid_record:
  assumes "\<not> valid (HKXInfo fp fsize f)"
  shows "\<exists>msg. HKXInfo fp fsize f = (init_fields fp fsize)\<lparr>error := Some msg\<rparr>"
proof (cases "read_file f (min fsize 65536)")
  case (Inl e)
  then have "HKXInfo fp fsize f
      = (init_fields fp fsize)\<lparr>error := Some (str ''Cannot read file: '' @ e)\<rparr>"
    by (simp add: HKXInfo_def parse_def init_fields_def)
  then show ?thesis by blast
next
  case (Inr data)
  note r = HKXInfo_readable[OF Inr, of fp]
  show ?thesis
  proof (cases "length data < 64")
    case True
    then have "HKXInfo fp fsize f
        = (init_fields fp fsize)\<lparr>error := Some (str ''File too small to be a valid HKX'')\<rparr>"
      by (simp add: r parse_data_def)
    then show ?thesis by blast
  next
    case False
    show ?thesis
    proof (cases "take 8 data = HKX_MAGIC_LE")
      case True
      with False have "valid (parse_data data (init_fields fp fsize))"
        by (simp add: standard_valid)
      with assms r show ?thesis by simp
    next
      case ne: False
      with False have p: "parse_data data (init_fields fp fsize)
          = parse_alternative_header data (init_fields fp fsize)"
        by (simp add: parse_data_def)
      have "\<not> valid (init_fields fp fsize)" by (simp add: init_fields_def)
      moreover from assms r p have "\<not> valid (parse_alternative_header data (init_fields fp fsize))"
        by simp
      ultimately have "parse_alternative_header data (init_fields fp fsize)
          = (init_fields fp fsize)\<lparr>error := Some (str ''No valid HKX header or Havok class signatures found'')\<rparr>"
        by (rule alternative_invalid[rotated])
      with r p have "HKXInfo fp fsize f
          = (init_fields fp fsize)\<lparr>error := Some (str ''No valid HKX header or Havok class signatures found'')\<rparr>"
        by simp
      then show ?thesis by blast
    qed
  qed
qed


text \<open>
  Claim C10: a record that is not valid has its \<open>error\<close> set and every classification
  field at the value the constructor gave it.
\<close>

theorem invalid_defaults:
  assumes "\<not> valid (HKXInfo fp fsize f)"
  shows "error (HKXInfo fp fsize f) \<noteq> None
         \<and> detected_classes (HKXInfo fp fsize f) = []
         \<and> has_animation (HKXInfo fp fsize f) = False
         \<and> has_skeleton (HKXInfo fp fsize f) = False
         \<and> has_binding (HKXInfo fp fsize f) = False
         \<and> compression_type (HKXInfo fp fsize f) = str ''unknown''
         \<and> endianness (HKXInfo fp fsize f) = str ''unknown''
         \<and> num_sections (HKXInfo fp fsize f) = 0
         \<and> havok_version_raw (HKXInfo fp fsize f) = 0
         \<and> content_version_string (HKXInfo fp fsize f) = []"
proof -
  from invalid_record[OF assms] obtain msg where
    "HKXInfo fp fsize f = (init_fields fp fsize)\<lparr>error := Some msg\<rparr>" by blast
  then show ?thesis by (simp add: init_fields_def)
qed

theorem invalid_defaults_witness:
  "error (HKXInfo sample_path 64 (Readable (replicate 64 0))) \<noteq> None
   \<and> detected_classes (HKXInfo sample_path 64 (Readable (replicate 64 0))) = []
   \<and> compression_type (HKXInfo sample_path 64 (Readable (replicate 64 0))) = str ''unknown''"
proof -
  have "\<not> valid (HKXInfo sample_path 64 (Readable (replicate 64 0)))"
    by code_simp
  from invalid_defaults[OF this] show ?thesis by simp
qed

text \<open>
  Claim C2, as the code has it: a record with a non-empty \<open>detected_classes\<close> is valid, since
  detection by signature alone marks the file valid.
\<close>

theorem classes_imply_valid:
  assumes "detected_classes (HKXInfo fp fsize f) \<noteq> []"
  shows "valid (HKXInfo fp fsize f)"
proof (rule ccontr)
  assume "\<not> valid (HKXInfo fp fsize f)"
  from invalid_record[OF this] obtain msg where
    "HKXInfo fp fsize f = (init_fields fp fsize)\<lparr>error := Some msg\<rparr>" by blast
  then have "detected_classes (HKXInfo fp fsize f) = []" by (simp add: init_fields_def)
  with assms show False by simp
qed

theorem classes_imply_valid_witness:
  "valid (HKXInfo sample_path 64 (Readable (ascii ''hkaSkeleton'' @ replicate 53 0)))"
proof -
  have "detected_classes (HKXInfo sample_path 64 (Readable (ascii ''hkaSkeleton'' @ replicate 53 0))) \<noteq> []"
    by code_simp
  then show ?thesis by (rule classes_imply_valid)
qed

text \<open>
  Claim C2 as stated fails: no input gives a record with detected classes and
  \<open>valid = False\<close>.
\<close>

theorem classes_without_valid_counterexample:
  "\<not> (\<exists>fp fsize f. detected_classes (HKXInfo fp fsize f) \<noteq> [] \<and> \<not> valid (HKXInfo fp fsize f))"
proof
  assume "\<exists>fp fsize f. detected_classes (HKXInfo fp fsize f) \<noteq> [] \<and> \<not> valid (HKXInfo fp fsize f)"
  then obtain fp fsize f where c: "detected_classes (HKXInfo fp fsize f) \<noteq> []"
    and v: "\<not> valid (HKXInfo fp fsize f)" by blast
  from invalid_record[OF v] obtain msg where
    "HKXInfo fp fsize f = (init_fields fp fsize)\<lparr>error := Some msg\<rparr>" by blast
  then have "detected_classes (HKXInfo fp fsize f) = []" by (simp add: init_fields_def)
  with c show False by simp
qed

section \<open>The scan order decides the compression classification\<close>

lemma scan_class_compression:
  "compression_type (scan_class data sig s) =
     (if sublist sig data \<and> sublist (str ''Animation'') (decode_ascii sig)
          \<and> \<not> sublist (str ''Container'') (decode_ascii sig)
      then (if sublist (str ''Spline'') (decode_ascii sig) then str ''spline''
            else if sublist (str ''Interleaved'') (decode_ascii sig) then str ''interleaved''
            else compression_type s)
      else compression_type s)"
  by (simp add: scan_class_def Let_def)

lemma interleaved_name:
  "sublist (str ''Animation'') (decode_ascii (ascii ''hkaInterleavedUncompressedAnimation''))"
  "\<not> sublist (str ''Container'') (decode_ascii (ascii ''hkaInterleavedUncompressedAnimation''))"
  "\<not> sublist (str ''Spline'') (decode_ascii (ascii ''hkaInterleavedUncompressedAnimation''))"
  "sublist (str ''Interleaved'') (decode_ascii (ascii ''hkaInterleavedUncompressedAnimation''))"
  by code_simp+

lemma later_names:
  "\<not> sublist (str ''Spline'') (decode_ascii (ascii ''hkaAnimationBinding''))"
  "\<not> sublist (str ''Interleaved'') (decode_ascii (ascii ''hkaAnimationBinding''))"
  "\<not> sublist (str ''Animation'') (decode_ascii (ascii ''hkaSkeleton''))"
  "\<not> sublist (str ''Animation'') (decode_ascii (ascii ''hkaSkeletonMapper''))"
  "\<not> sublist (str ''Animation'') (decode_ascii (ascii ''hkRootLevelContainer''))"
  by code_simp+

lemma scan_classes_interleaved:
  assumes "sublist (ascii ''hkaInterleavedUncompressedAnimation'') data"
  shows "compression_type (scan_classes data s) = str ''interleaved''"
  using assms
  by (simp add: scan_classes_def ER_CLASSNAME_SIGNATURES_def scan_class_compression
        interleaved_name later_names)


lemma scan_magic_none:
  "\<forall>offset \<in> set offs. take 8 (drop offset data) \<noteq> HKX_MAGIC_LE \<Longrightarrow> scan_magic data offs s = s"
  by (induction offs) simp_all

lemma scan_sigs_detects:
  "sig \<in> set sigs \<Longrightarrow> sublist sig data \<Longrightarrow> detected_classes (scan_sigs data sigs s) \<noteq> []"
proof (induction sigs arbitrary: s)
  case Nil
  then show ?case by simp
next
  case (Cons a sigs)
  show ?case
  proof (cases "a = sig")
    case True
    with Cons.prems have "detected_classes (scan_class data a s) \<noteq> []"
      by (simp add: scan_class_detected)
    then have "detected_classes (scan_sigs data sigs (scan_class data a s)) \<noteq> []"
      by (rule scan_sigs_grows)
    then show ?thesis by simp
  next
    case False
    with Cons.prems have "sig \<in> set sigs" by simp
    then have "detected_classes (scan_sigs data sigs (scan_class data a s)) \<noteq> []"
      using Cons.prems(2) by (rule Cons.IH)
    then show ?thesis by simp
  qed
qed

lemma scan_classes_detects_interleaved:
  assumes "sublist (ascii ''hkaInterleavedUncompressedAnimation'') data"
  shows "detected_classes (scan_classes data s) \<noteq> []"
  unfolding scan_classes_def
  by (rule scan_sigs_detects[OF _ assms]) (simp add: ER_CLASSNAME_SIGNATURES_def)

lemma alternative_interleaved:
  assumes i: "sublist (ascii ''hkaInterleavedUncompressedAnimation'') data"
    and nv: "\<not> valid s"
    and scanned: "take 3 data = ascii ''hk_'' \<or> take 3 data = ascii ''HK_''
       \<or> (\<forall>offset \<in> set (range4 (min 256 (int (length data) - 8))).
             take 8 (drop offset data) \<noteq> HKX_MAGIC_LE)"
  shows "compression_type (parse_alternative_header data s) = str ''interleaved''"
proof (cases "take 3 data = ascii ''hk_'' \<or> take 3 data = ascii ''HK_''")
  case True
  then show ?thesis
    by (simp add: parse_alternative_header_def Let_def scan_classes_interleaved[OF i])
next
  case False
  with scanned have "\<forall>offset \<in> set (range4 (min 256 (int (length data) - 8))).
             take 8 (drop offset data) \<noteq> HKX_MAGIC_LE" by blast
  then have m: "scan_magic data (range4 (min 256 (int (length data) - 8))) s = s"
    by (rule scan_magic_none)
  have d: "detected_classes (scan_classes data s) \<noteq> []"
    by (rule scan_classes_detects_interleaved[OF i])
  have "parse_alternative_header data s
        = (scan_classes data s)\<lparr>valid := True,
             havok_version_str := str ''unknown (headerless, classes detected)''\<rparr>"
    using False nv d by (simp add: parse_alternative_header_def Let_def m)
  then show ?thesis by (simp add: scan_classes_interleaved[OF i])
qed

text \<open>
  Claim C6, as the code has it: on a buffer of at least 64 bytes that holds both the spline
  and the interleaved signature, and on which \<open>_scan_classes\<close> runs (the buffer starts with
  the magic constant, or with the marker \<open>hk_\<close> or \<open>HK_\<close>, or has the magic constant at none
  of the probed 4-byte-aligned offsets), the classification is \<open>interleaved\<close>, the later of
  the two in the signature list, wherever the two occur in the buffer.
\<close>

theorem both_signatures_interleaved:
  assumes "read_file f (min fsize 65536) = Inr data"
    and "64 \<le> length data"
    and "sublist (ascii ''hkaSplineCompressedAnimation'') data"
    and "sublist (ascii ''hkaInterleavedUncompressedAnimation'') data"
    and "take 8 data = HKX_MAGIC_LE
       \<or> take 3 data = ascii ''hk_'' \<or> take 3 data = ascii ''HK_''
       \<or> (\<forall>offset \<in> set (range4 (min 256 (int (length data) - 8))).
             take 8 (drop offset data) \<noteq> HKX_MAGIC_LE)"
  shows "compression_type (HKXInfo fp fsize f) = str ''interleaved''"
proof (cases "take 8 data = HKX_MAGIC_LE")
  case True
  then have "parse_data data (init_fields fp fsize)
      = scan_classes data (scan_version_string data
             (except_pass (parse_header_fields data ((init_fields fp fsize)\<lparr>valid := True\<rparr>))))"
    using assms(2) by (rule parse_data_standard[rotated])
  then show ?thesis
    by (simp only: HKXInfo_readable[OF assms(1)] scan_classes_interleaved[OF assms(4)])
next
  case False
  with assms(2) have p: "parse_data data (init_fields fp fsize)
      = parse_alternative_header data (init_fields fp fsize)"
    by (simp add: parse_data_def)
  have "\<not> valid (init_fields fp fsize)" by (simp add: init_fields_def)
  moreover from False assms(5) have "take 3 data = ascii ''hk_'' \<or> take 3 data = ascii ''HK_''
       \<or> (\<forall>offset \<in> set (range4 (min 256 (int (length data) - 8))).
             take 8 (drop offset data) \<noteq> HKX_MAGIC_LE)" by blast
  ultimately have "compression_type (parse_alternative_header data (init_fields fp fsize))
      = str ''interleaved''"
    by (rule alternative_interleaved[OF assms(4)])
  then show ?thesis by (simp only: HKXInfo_readable[OF assms(1)] p)
qed

theorem both_signatures_interleaved_witness:
  "compression_type (HKXInfo sample_path 64 (Readable (both_signatures @ [0]))) = str ''interleaved''"
proof -
  have r: "read_file (Readable (both_signatures @ [0])) (min 64 65536) = Inr (both_signatures @ [0])"
    by (simp add: read_file_def both_signatures_def ascii_def)
  have l: "64 \<le> length (both_signatures @ [0])"
    by (simp add: both_signatures_def ascii_def)
  have a: "sublist (ascii ''hkaSplineCompressedAnimation'') (both_signatures @ [0])"
    unfolding both_signatures_def by (simp only: append_assoc sublist_appendI)
  have b: "sublist (ascii ''hkaInterleavedUncompressedAnimation'') (both_signatures @ [0])"
    using sublist_appendI[of "ascii ''hkaInterleavedUncompressedAnimation''" "[]"]
    by (simp add: both_signatures_def)
  have c: "\<forall>offset \<in> set (range4 (min 256 (int (length (both_signatures @ [0])) - 8))).
             take 8 (drop offset (both_signatures @ [0])) \<noteq> HKX_MAGIC_LE"
    by code_simp
  from both_signatures_interleaved[OF r l a b] c show ?thesis by blast
qed

text \<open>
  Claim C6 as stated, for every buffer, fails: the two signatures side by side are 63 bytes,
  a buffer that is rejected as too small before any signature is looked for.
\<close>

theorem both_signatures_short_counterexample:
  "sublist (ascii ''hkaSplineCompressedAnimation'') both_signatures
   \<and> sublist (ascii ''hkaInterleavedUncompressedAnimation'') both_signatures
   \<and> compression_type (HKXInfo sample_path 63 (Readable both_signatures)) \<noteq> str ''interleaved''"
proof -
  have a: "sublist (ascii ''hkaSplineCompressedAnimation'') both_signatures"
    using sublist_appendI[of "ascii ''hkaSplineCompressedAnimation''" "ascii ''hkaInterleavedUncompressedAnimation''" "[]"]
    by (simp add: both_signatures_def)
  have b: "sublist (ascii ''hkaInterleavedUncompressedAnimation'') both_signatures"
    using sublist_appendI[of "ascii ''hkaInterleavedUncompressedAnimation''" "[]"]
    by (simp add: both_signatures_def)
  have "length both_signatures = 63" by (simp add: both_signatures_def ascii_def)
  then have "compression_type (HKXInfo sample_path 63 (Readable both_signatures)) = str ''unknown''"
    by (simp add: HKXInfo_def parse_def read_file_def parse_data_def init_fields_def)
  moreover have "str ''unknown'' \<noteq> str ''interleaved''" by (simp add: str_def)
  ultimately show ?thesis using a b by simp
qed

section \<open>Resolving the version label\<close>

lemma unpack_in_range:
  "offset + 4 \<le> length data \<Longrightarrow> \<exists>v. unpack_from_I data offset = Some v"
  by (simp add: unpack_from_I_def)

lemma HAVOK_VERSIONS_zero: "HAVOK_VERSIONS 0 = None"
  by (simp add: HAVOK_VERSIONS_def)

text \<open>The fallback label on a value that is no key, the four probed values being no keys either.\<close>

lemma format_08X_example:
  "format_08X 0x0A00BEEF = str ''0A00BEEF''"
  by (simp add: format_08X_def hex_digit_def str_def)

lemma unknown_label_example:
  "version_label 0x0A00BEEF [0, 1, 2, 3] = str ''unknown (0x0A00BEEF)''"
  by (simp add: version_label_def HAVOK_VERSIONS_def format_08X_def hex_digit_def str_def)

lemma probe_versions_find:
  assumes "\<forall>offset \<in> set offs. offset + 4 \<le> length data"
  shows "probe_versions data offs s =
     Inr (case List.find (\<lambda>v. HAVOK_VERSIONS v \<noteq> None)
                 (map (\<lambda>offset. the (unpack_from_I data offset)) offs) of
            None \<Rightarrow> s
          | Some v \<Rightarrow> s\<lparr>havok_version_raw := v, havok_version_str := the (HAVOK_VERSIONS v)\<rparr>)"
  using assms
proof (induction offs)
  case Nil
  show ?case by simp
next
  case (Cons offset rest)
  then have r: "offset + 4 \<le> length data" by simp
  then obtain v where v: "unpack_from_I data offset = Some v"
    using unpack_in_range by blast
  show ?case
  proof (cases "HAVOK_VERSIONS v")
    case None
    with r v Cons show ?thesis by simp
  next
    case (Some label)
    with r v show ?thesis by simp
  qed
qed

lemma probe_sections_completes:
  assumes "\<forall>offset \<in> set offs. offset + 4 \<le> length data"
  shows "\<exists>s'. probe_sections data offs s = Inr s'"
  using assms
proof (induction offs)
  case Nil
  show ?case by simp
next
  case (Cons offset rest)
  then have r: "offset + 4 \<le> length data" by simp
  then obtain v where v: "unpack_from_I data offset = Some v"
    using unpack_in_range by blast
  show ?case
  proof (cases "0 < v \<and> v < 100")
    case True
    with r v show ?thesis by simp
  next
    case False
    with r v have "probe_sections data (offset # rest) s = probe_sections data rest s" by auto
    with Cons show ?thesis by simp
  qed
qed

lemma resolve_version_label:
  assumes len: "48 \<le> length data" and raw: "havok_version_raw s = 0"
    and c: "unpack_from_I data 0x0C = Some c"
    and v: "unpack_from_I data 0x10 = Some v1" "unpack_from_I data 0x14 = Some v2"
           "unpack_from_I data 0x28 = Some v3" "unpack_from_I data 0x2C = Some v4"
  shows "\<exists>s'. resolve_version data s = Inr s'
            \<and> havok_version_str s' = version_label c [v1, v2, v3, v4]"
proof (cases "HAVOK_VERSIONS c")
  case (Some label)
  with c show ?thesis by (simp add: resolve_version_def version_label_def)
next
  case None
  have "\<forall>offset \<in> set [0x10, 0x14, 0x28, 0x2C]. offset + 4 \<le> length data"
    using len by simp
  from probe_versions_find[OF this, of s]
  have p: "probe_versions data [0x10, 0x14, 0x28, 0x2C] s =
     Inr (case List.find (\<lambda>v. HAVOK_VERSIONS v \<noteq> None) [v1, v2, v3, v4] of
            None \<Rightarrow> s
          | Some v \<Rightarrow> s\<lparr>havok_version_raw := v, havok_version_str := the (HAVOK_VERSIONS v)\<rparr>)"
    by (simp only: list.map v option.sel)
  show ?thesis
  proof (cases "List.find (\<lambda>v. HAVOK_VERSIONS v \<noteq> None) [v1, v2, v3, v4]")
    case None
    with p have "probe_versions data [0x10, 0x14, 0x28, 0x2C] s = Inr s" by simp
    with c \<open>HAVOK_VERSIONS c = None\<close> raw None show ?thesis
      by (simp add: resolve_version_def and_then_def version_label_def)
  next
    case (Some w)
    then have "HAVOK_VERSIONS w \<noteq> None" unfolding find_Some_iff by blast
    have "w \<noteq> 0"
    proof
      assume "w = 0"
      with \<open>HAVOK_VERSIONS w \<noteq> None\<close> HAVOK_VERSIONS_zero show False by simp
    qed
    from p Some have "probe_versions data [0x10, 0x14, 0x28, 0x2C] s
        = Inr (s\<lparr>havok_version_raw := w, havok_version_str := the (HAVOK_VERSIONS w)\<rparr>)"
      by simp
    with c \<open>HAVOK_VERSIONS c = None\<close> \<open>w \<noteq> 0\<close> Some show ?thesis
      by (simp add: resolve_version_def and_then_def version_label_def)
  qed
qed

lemma parse_header_fields_label:
  assumes len: "48 \<le> length data" and raw: "havok_version_raw s = 0"
    and c: "unpack_from_I data 0x0C = Some c"
    and v: "unpack_from_I data 0x10 = Some v1" "unpack_from_I data 0x14 = Some v2"
           "unpack_from_I data 0x28 = Some v3" "unpack_from_I data 0x2C = Some v4"
  shows "\<exists>s'. parse_header_fields data s = Inr s'
            \<and> havok_version_str s' = version_label c [v1, v2, v3, v4]"
proof -
  obtain tag where tag: "unpack_from_I data 0x08 = Some tag"
    using len unpack_in_range[of 8 data] by auto
  define s2 where "s2 = s\<lparr>user_tag := tag,
     endianness := (if (if length data > 0x11 then data ! 0x11 else 0) = 0
                    then str ''big'' else str ''little'')\<rparr>"
  have phf: "parse_header_fields data s = and_then (resolve_version data s2) (probe_sections data [0x14, 0x18])"
    using tag by (simp only: parse_header_fields_def option.case Let_def s2_def)
  have "havok_version_raw s2 = 0" using raw by (simp add: s2_def)
  from resolve_version_label[OF len this c v] obtain s3 where
    s3: "resolve_version data s2 = Inr s3" "havok_version_str s3 = version_label c [v1, v2, v3, v4]"
    by blast
  have "\<forall>offset \<in> set [0x14, 0x18]. offset + 4 \<le> length data" using len by simp
  from probe_sections_completes[OF this, of s3] obtain s4 where
    s4: "probe_sections data [0x14, 0x18] s3 = Inr s4" by blast
  obtain n where "except_pass (probe_sections data [0x14, 0x18] s3) = s3\<lparr>num_sections := n\<rparr>"
    using probe_sections_result by blast
  with s4 have "s4 = s3\<lparr>num_sections := n\<rparr>" by (simp add: except_pass_def)
  with s3(2) have "havok_version_str s4 = version_label c [v1, v2, v3, v4]" by simp
  moreover have "parse_header_fields data s = Inr s4"
    unfolding phf by (simp only: and_then_def s3(1) s4 sum.case)
  ultimately show ?thesis by blast
qed

text \<open>
  Claim C7: on a buffer of at least 64 bytes that starts with the magic constant, every
  read of the version candidates succeeds and the \<open>try\<close> block completes without
  \<open>struct.error\<close>. The label is the table entry of the value at offset 0x0C when that is a
  key; otherwise that of the first of the values at 0x10, 0x14, 0x28, 0x2C that is a key;
  otherwise \<open>unknown (0x...)\<close> with the value at 0x0C in eight hexadecimal digits.
\<close>

theorem version_resolution:
  assumes "read_file f (min fsize 65536) = Inr data"
    and "64 \<le> length data" and "take 8 data = HKX_MAGIC_LE"
  shows "\<exists>c v1 v2 v3 v4.
           unpack_from_I data 0x0C = Some c
         \<and> unpack_from_I data 0x10 = Some v1 \<and> unpack_from_I data 0x14 = Some v2
         \<and> unpack_from_I data 0x28 = Some v3 \<and> unpack_from_I data 0x2C = Some v4
         \<and> havok_version_str (HKXInfo fp fsize f) =
             (case HAVOK_VERSIONS c of
                Some label \<Rightarrow> label
              | None \<Rightarrow>
                  (case List.find (\<lambda>v. HAVOK_VERSIONS v \<noteq> None) [v1, v2, v3, v4] of
                     Some v \<Rightarrow> the (HAVOK_VERSIONS v)
                   | None \<Rightarrow> str ''unknown (0x'' @ format_08X c @ str '')''))
         \<and> (\<exists>s'. parse_header_fields data ((init_fields fp fsize)\<lparr>valid := True\<rparr>) = Inr s')
         \<and> valid (HKXInfo fp fsize f) \<and> error (HKXInfo fp fsize f) = None"
proof -
  let ?s = "(init_fields fp fsize)\<lparr>valid := True\<rparr>"
  have len: "48 \<le> length data" using assms(2) by simp
  obtain c where c: "unpack_from_I data 0x0C = Some c"
    using assms(2) unpack_in_range[of "0x0C" data] by auto
  obtain v1 where v1: "unpack_from_I data 0x10 = Some v1"
    using assms(2) unpack_in_range[of "0x10" data] by auto
  obtain v2 where v2: "unpack_from_I data 0x14 = Some v2"
    using assms(2) unpack_in_range[of "0x14" data] by auto
  obtain v3 where v3: "unpack_from_I data 0x28 = Some v3"
    using assms(2) unpack_in_range[of "0x28" data] by auto
  obtain v4 where v4: "unpack_from_I data 0x2C = Some v4"
    using assms(2) unpack_in_range[of "0x2C" data] by auto
  have "havok_version_raw ?s = 0" by (simp add: init_fields_def)
  from parse_header_fields_label[OF len this c v1 v2 v3 v4] obtain s' where
    s': "parse_header_fields data ?s = Inr s'"
        "havok_version_str s' = version_label c [v1, v2, v3, v4]" by blast
  have h: "HKXInfo fp fsize f = scan_classes data (scan_version_string data s')"
    by (simp only: HKXInfo_readable[OF assms(1)] parse_data_standard[OF assms(2,3)] s'(1)
          except_pass_def sum.case)
  have "header_only ?s (except_pass (parse_header_fields data ?s))"
    by (rule parse_header_fields_header_only)
  then have "header_only ?s s'"
    by (simp only: s'(1) except_pass_def sum.case)
  then have "error s' = None"
    by (simp add: header_only_def init_fields_def)
  then have e: "error (HKXInfo fp fsize f) = None"
    by (simp only: h scan_classes_frame scan_version_string_frame)
  have l: "havok_version_str (HKXInfo fp fsize f) = version_label c [v1, v2, v3, v4]"
    by (simp only: h scan_classes_frame scan_version_string_frame s'(2))
  have "valid (HKXInfo fp fsize f)"
    by (simp only: HKXInfo_readable[OF assms(1)] standard_valid[OF assms(2,3)])
  with c v1 v2 v3 v4 l e s'(1) show ?thesis
    unfolding version_label_def by blast
qed

theorem version_resolution_witness:
  "havok_version_str (HKXInfo sample_path 64 (Readable probed_header))
     = str ''hk2018 (Elden Ring / DS3)''"
proof -
  have r: "read_file (Readable probed_header) (min 64 65536) = Inr probed_header"
    by (simp add: read_file_def probed_header_def HKX_MAGIC_LE_def)
  have l: "64 \<le> length probed_header"
    by (simp add: probed_header_def HKX_MAGIC_LE_def)
  have m: "take 8 probed_header = HKX_MAGIC_LE"
    by (simp add: probed_header_def HKX_MAGIC_LE_def)
  have u: "unpack_from_I probed_header 0x0C = Some 0" "unpack_from_I probed_header 0x10 = Some 0"
    "unpack_from_I probed_header 0x14 = Some 0x0E000000"
    by (simp_all add: unpack_from_I_def probed_header_def HKX_MAGIC_LE_def nth_append)
  have k: "HAVOK_VERSIONS 0 = None" "HAVOK_VERSIONS 0x0E000000 = Some (str ''hk2018 (Elden Ring / DS3)'')"
    by (simp_all add: HAVOK_VERSIONS_def)
  from version_resolution[OF r l m, of sample_path] obtain c v1 v2 v3 v4 where
    "unpack_from_I probed_header 0x0C = Some c" "unpack_from_I probed_header 0x10 = Some v1"
    "unpack_from_I probed_header 0x14 = Some v2"
    and lab: "havok_version_str (HKXInfo sample_path 64 (Readable probed_header)) =
             (case HAVOK_VERSIONS c of
                Some label \<Rightarrow> label
              | None \<Rightarrow>
                  (case List.find (\<lambda>v. HAVOK_VERSIONS v \<noteq> None) [v1, v2, v3, v4] of
                     Some v \<Rightarrow> the (HAVOK_VERSIONS v)
                   | None \<Rightarrow> str ''unknown (0x'' @ format_08X c @ str '')''))"
    by blast
  with u have "c = 0" "v1 = 0" "v2 = 0x0E000000" by simp_all
  with lab k show ?thesis by simp
qed

section \<open>The textual marker\<close>

lemma find_sub_single:
  "k < length xs \<Longrightarrow> xs ! k = x \<Longrightarrow> x \<notin> set (take k xs) \<Longrightarrow> find_sub [x] xs = Some k"
proof (induction xs arbitrary: k)
  case Nil
  then show ?case by simp
next
  case (Cons y ys)
  show ?case
  proof (cases k)
    case 0
    with Cons.prems show ?thesis by simp
  next
    case (Suc j)
    with Cons.prems have "j < length ys" "ys ! j = x" "x \<notin> set (take j ys)" "y \<noteq> x"
      by auto
    with Cons.IH[of j] Suc show ?thesis by simp
  qed
qed

lemma find3_nul:
  assumes "k < 64" and "k < length data" and "data ! k = 0" and "0 \<notin> set (take k data)"
  shows "find3 data [0] 0 64 = int k"
proof -
  have "k < length (take 64 data)" using assms(1,2) by simp
  moreover have "take 64 data ! k = 0" using assms(1,3) by simp
  moreover have "0 \<notin> set (take k (take 64 data))" using assms(1,4) by (simp add: min_def)
  ultimately have "find_sub [0] (take 64 data) = Some k" by (rule find_sub_single)
  then show ?thesis by (simp add: find3_def)
qed

lemma marker_valid:
  assumes "take 3 data = ascii ''hk_'' \<or> take 3 data = ascii ''HK_''"
  shows "valid (parse_alternative_header data s)"
  using assms by (simp add: parse_alternative_header_def Let_def scan_classes_frame)

lemma marker_2018:
  assumes mk: "take 3 data = ascii ''hk_'' \<or> take 3 data = ascii ''HK_''"
    and e: "find3 data [0] 0 64 = int k" and k: "0 < k"
    and c: "sublist (str ''2018'') (decode_ascii_replace (take k data))"
  shows "content_version_string (parse_alternative_header data s) = decode_ascii_replace (take k data)
       \<and> havok_version_str (parse_alternative_header data s) = str ''hk2018 (Elden Ring / DS3)''"
proof -
  have "parse_alternative_header data s =
      scan_classes data (s\<lparr>valid := True,
         content_version_string := decode_ascii_replace (take k data),
         havok_version_str := str ''hk2018 (Elden Ring / DS3)''\<rparr>)"
    using mk k c by (simp add: parse_alternative_header_def Let_def e)
  then show ?thesis by (simp add: scan_classes_frame)
qed

text \<open>
  Claim C5: a buffer of at least 64 bytes whose first 8 bytes are not the magic constant
  and whose first 3 bytes are \<open>hk_\<close> or \<open>HK_\<close> gives a valid record; and when the first NUL
  of the buffer is at an index \<open>k\<close> below 64 and the decoded bytes before it contain
  \<open>2018\<close>, these are the content version string and the label is the hk2018 one.
\<close>

theorem marker_header:
  assumes "read_file f (min fsize 65536) = Inr data"
    and "64 \<le> length data" and "take 8 data \<noteq> HKX_MAGIC_LE"
    and "take 3 data = ascii ''hk_'' \<or> take 3 data = ascii ''HK_''"
  shows "valid (HKXInfo fp fsize f)
       \<and> (\<forall>k. 0 < k \<and> k < 64 \<and> data ! k = 0 \<and> 0 \<notin> set (take k data)
              \<and> sublist (str ''2018'') (decode_ascii_replace (take k data)) \<longrightarrow>
            content_version_string (HKXInfo fp fsize f) = decode_ascii_replace (take k data)
            \<and> havok_version_str (HKXInfo fp fsize f) = str ''hk2018 (Elden Ring / DS3)'')"
proof -
  have p: "HKXInfo fp fsize f = parse_alternative_header data (init_fields fp fsize)"
    using assms(2,3) by (simp add: HKXInfo_readable[OF assms(1)] parse_data_def)
  have v: "valid (HKXInfo fp fsize f)"
    unfolding p by (rule marker_valid[OF assms(4)])
  have "content_version_string (HKXInfo fp fsize f) = decode_ascii_replace (take k data)
        \<and> havok_version_str (HKXInfo fp fsize f) = str ''hk2018 (Elden Ring / DS3)''"
    if "0 < k" "k < 64" "data ! k = 0" "0 \<notin> set (take k data)"
       "sublist (str ''2018'') (decode_ascii_replace (take k data))" for k
  proof -
    have "k < length data" using that(2) assms(2) by simp
    with that have "find3 data [0] 0 64 = int k" by (simp add: find3_nul)
    then show ?thesis unfolding p using that(1,5) by (rule marker_2018[OF assms(4)])
  qed
  with v show ?thesis by blast
qed

theorem marker_header_witness:
  "valid (HKXInfo sample_path 64 (Readable tagfile_2018))
   \<and> content_version_string (HKXInfo sample_path 64 (Readable tagfile_2018)) = str ''hk_2018.1.0-r1''
   \<and> havok_version_str (HKXInfo sample_path 64 (Readable tagfile_2018)) = str ''hk2018 (Elden Ring / DS3)''"
proof -
  have r: "read_file (Readable tagfile_2018) (min 64 65536) = Inr tagfile_2018"
    by (simp add: read_file_def tagfile_2018_def ascii_def)
  have l: "64 \<le> length tagfile_2018"
    by (simp add: tagfile_2018_def ascii_def)
  have m: "take 8 tagfile_2018 \<noteq> HKX_MAGIC_LE"
    by (simp add: tagfile_2018_def ascii_def HKX_MAGIC_LE_def)
  have t: "take 3 tagfile_2018 = ascii ''hk_'' \<or> take 3 tagfile_2018 = ascii ''HK_''"
    by (simp add: tagfile_2018_def ascii_def)
  have k: "0 < (14::nat) \<and> (14::nat) < 64 \<and> tagfile_2018 ! 14 = 0 \<and> 0 \<notin> set (take 14 tagfile_2018)
           \<and> sublist (str ''2018'') (decode_ascii_replace (take 14 tagfile_2018))"
    by code_simp
  have d: "decode_ascii_replace (take 14 tagfile_2018) = str ''hk_2018.1.0-r1''"
    by code_simp
  from marker_header[OF r l m t, of sample_path] k d show ?thesis by metis
qed

end
